theory Spec2Isabelle
  imports Complex_Main "HOL-Library.Product_Lexorder"
begin

section \<open>Configuration constants (backend/config.py)\<close>

definition CATEGORY_ERROR_CODES :: string where
  "CATEGORY_ERROR_CODES = ''ERROR_CODES''"

definition CATEGORY_SCHEMATICS :: string where
  "CATEGORY_SCHEMATICS = ''SCHEMATICS''"

definition CATEGORY_GENERAL :: string where
  "CATEGORY_GENERAL = ''GENERAL''"

section \<open>Text of a query\<close>

text \<open>
  A query text is a Python \<^verbatim>\<open>str\<close>: a sequence of Unicode code points, here a list of
  natural numbers. A literal of the source, which is ASCII, is the list of the codes of
  its characters.
\<close>

type_synonym py_str = "nat list"

definition py_str :: "string \<Rightarrow> py_str" where
  "py_str s = map of_char s"

text \<open>
  The router reads the text through four tables of Unicode that are part of Python and
  not of the repository: the case mappings \<^verbatim>\<open>str.upper\<close> and \<^verbatim>\<open>str.lower\<close>, which map
  a whole string (one character may become several: the uppercase of the sharp s is
  \<^verbatim>\<open>SS\<close>), the class \<^verbatim>\<open>\w\<close> of the word characters and the class \<^verbatim>\<open>\d\<close> of the
  decimal digits of the \<^verbatim>\<open>re\<close> module. They are a parameter of the model.
\<close>

record unicode_tables =
  str_upper :: "py_str \<Rightarrow> py_str"
  str_lower :: "py_str \<Rightarrow> py_str"
  is_word_char :: "nat \<Rightarrow> bool"
  is_digit :: "nat \<Rightarrow> bool"

text \<open>The class \<^verbatim>\<open>[A-Z]\<close> of the pattern: the code points 65 to 90.\<close>

definition is_upper_AZ :: "nat \<Rightarrow> bool" where
  "is_upper_AZ c = (65 \<le> c \<and> c \<le> 90)"

text \<open>
  Two facts of the tables of Python that the router's pattern relies on: a letter from
  A to Z is a word character, and so is a decimal digit.
\<close>

definition unicode_classes :: "unicode_tables \<Rightarrow> bool" where
  "unicode_classes db =
     ((\<forall>c. is_upper_AZ c \<longrightarrow> is_word_char db c) \<and> (\<forall>c. is_digit db c \<longrightarrow> is_word_char db c))"

subsection \<open>The tables on ASCII\<close>

definition is_ascii :: "nat \<Rightarrow> bool" where
  "is_ascii c = (c < 128)"

definition ascii_text :: "py_str \<Rightarrow> bool" where
  "ascii_text s = list_all is_ascii s"

definition is_lower_az :: "nat \<Rightarrow> bool" where
  "is_lower_az c = (97 \<le> c \<and> c \<le> 122)"

definition is_letter :: "nat \<Rightarrow> bool" where
  "is_letter c = (is_upper_AZ c \<or> is_lower_az c)"

definition ascii_digit :: "nat \<Rightarrow> bool" where
  "ascii_digit c = (48 \<le> c \<and> c \<le> 57)"

definition ascii_word_char :: "nat \<Rightarrow> bool" where
  "ascii_word_char c = (is_letter c \<or> ascii_digit c \<or> c = 95)"

definition upper_char :: "nat \<Rightarrow> nat" where
  "upper_char c = (if is_lower_az c then c - 32 else c)"

definition lower_char :: "nat \<Rightarrow> nat" where
  "lower_char c = (if is_upper_AZ c then c + 32 else c)"

text \<open>
  What the tables of Python are on ASCII: the case mappings of an ASCII text map its
  letters one for one, a word character below 128 is a letter, a digit or the underscore,
  and a decimal digit below 128 is one of 0 to 9.
\<close>

definition ascii_behaviour :: "unicode_tables \<Rightarrow> bool" where
  "ascii_behaviour db =
     ((\<forall>s. ascii_text s \<longrightarrow> str_upper db s = map upper_char s \<and> str_lower db s = map lower_char s)
      \<and> (\<forall>c. is_ascii c \<longrightarrow> is_word_char db c = ascii_word_char c \<and> is_digit db c = ascii_digit c))"

text \<open>
  The tables of Python on ASCII and on four more code points, for the examples: the small
  letter e with acute (233) and its capital (201), the sharp s (223), whose uppercase is
  \<^verbatim>\<open>SS\<close>, and the Arabic-Indic digit three (1635). Every other code point is left as it is by the
  case mappings of these tables and is in neither class.
\<close>

definition sample_upper :: "nat \<Rightarrow> py_str" where
  "sample_upper c = (if c = 223 then [83, 83] else if c = 233 then [201] else [upper_char c])"

definition sample_lower :: "nat \<Rightarrow> py_str" where
  "sample_lower c = (if c = 201 then [233] else [lower_char c])"

definition sample_tables :: unicode_tables where
  "sample_tables =
     \<lparr>str_upper = (\<lambda>s. concat (map sample_upper s)),
      str_lower = (\<lambda>s. concat (map sample_lower s)),
      is_word_char = (\<lambda>c. ascii_word_char c \<or> c = 201 \<or> c = 223 \<or> c = 233 \<or> c = 1635),
      is_digit = (\<lambda>c. ascii_digit c \<or> c = 1635)\<rparr>"

section \<open>Substring search\<close>

text \<open>The operator \<^verbatim>\<open>keyword in s\<close> on strings: \<open>keyword\<close> occurs in \<open>s\<close> at some position.\<close>

fun starts_with :: "py_str \<Rightarrow> py_str \<Rightarrow> bool" where
  "starts_with s [] = True"
| "starts_with [] (k # ks) = False"
| "starts_with (c # cs) (k # ks) = (c = k \<and> starts_with cs ks)"

fun str_contains :: "py_str \<Rightarrow> py_str \<Rightarrow> bool" where
  "str_contains [] keyword = starts_with [] keyword"
| "str_contains (c # cs) keyword = (starts_with (c # cs) keyword \<or> str_contains cs keyword)"

section \<open>The regular expression of the router\<close>

text \<open>
  \<^verbatim>\<open>error_code_pattern = r'\b[A-Z]{1,3}\d?\b'\<close> is a sequence of four items: a word
  boundary, a character class repeated between 1 and 3 times, a character class repeated
  between 0 and 1 times, a word boundary.
\<close>

datatype char_class = UpperAZ | Digit

datatype regex_item = WordBoundary | Repeat char_class nat nat

fun in_class :: "unicode_tables \<Rightarrow> char_class \<Rightarrow> nat \<Rightarrow> bool" where
  "in_class db UpperAZ c = is_upper_AZ c"
| "in_class db Digit c = is_digit db c"

text \<open>
  \<^verbatim>\<open>\b\<close> matches the empty string at position \<open>i\<close> where exactly one of the character
  before and the character at \<open>i\<close> is a word character; outside the string there is no
  word character.
\<close>

definition word_boundary :: "unicode_tables \<Rightarrow> py_str \<Rightarrow> nat \<Rightarrow> bool" where
  "word_boundary db s i =
     ((0 < i \<and> i \<le> length s \<and> is_word_char db (s ! (i - 1)))
        \<noteq> (i < length s \<and> is_word_char db (s ! i)))"

text \<open>
  Backtracking match of a sequence of items from position \<open>i\<close>: a repetition tries the
  longest count first (it is greedy) and gives back one character at a time.
\<close>

fun match_here :: "unicode_tables \<Rightarrow> regex_item list \<Rightarrow> py_str \<Rightarrow> nat \<Rightarrow> bool" where
  "match_here db [] s i = True"
| "match_here db (WordBoundary # items) s i = (word_boundary db s i \<and> match_here db items s i)"
| "match_here db (Repeat cls lo hi # items) s i =
     list_ex (\<lambda>n. i + n \<le> length s \<and> list_all (in_class db cls) (take n (drop i s))
                  \<and> match_here db items s (i + n))
             (rev [lo..<Suc hi])"

text \<open>\<^verbatim>\<open>re.search\<close>: is there a position of the string where the pattern matches.\<close>

definition re_search :: "unicode_tables \<Rightarrow> regex_item list \<Rightarrow> py_str \<Rightarrow> bool" where
  "re_search db pattern s = list_ex (match_here db pattern s) [0..<Suc (length s)]"

definition error_code_pattern :: "regex_item list" where
  "error_code_pattern = [WordBoundary, Repeat UpperAZ 1 3, Repeat Digit 0 1, WordBoundary]"

definition error_keywords :: "py_str list" where
  "error_keywords =
     [py_str ''error'', py_str ''code'', py_str ''display'', py_str ''showing'',
      py_str ''flashing'']"

section \<open>The intent router (backend/main.py)\<close>

text \<open>
  \<^verbatim>\<open>detect_intent(text, has_image)\<close>, with the tables of Unicode as a first argument; the
  result \<^verbatim>\<open>None\<close> of the source is \<open>None\<close>. The calls of the logger do not change the
  result and are left out.
\<close>

definition detect_intent :: "unicode_tables \<Rightarrow> py_str \<Rightarrow> bool \<Rightarrow> string option" where
  "detect_intent db text has_image =
     (if has_image then Some CATEGORY_SCHEMATICS
      else if re_search db error_code_pattern (str_upper db text) then Some CATEGORY_ERROR_CODES
      else if list_ex (\<lambda>keyword. str_contains (str_lower db text) keyword) error_keywords
        then Some CATEGORY_ERROR_CODES
      else None)"

section \<open>The routing rules as the specification words them\<close>

text \<open>
  A token is one to three uppercase letters, the letters A to Z of the pattern, optionally
  followed by a single digit. It stands as a whole word in a text when the character
  before it and the character after it, where there is one, are not word characters.
\<close>

definition error_code_token :: "unicode_tables \<Rightarrow> py_str \<Rightarrow> bool" where
  "error_code_token db tok =
     (\<exists>letters digits. tok = letters @ digits
        \<and> 1 \<le> length letters \<and> length letters \<le> 3 \<and> list_all is_upper_AZ letters
        \<and> length digits \<le> 1 \<and> list_all (is_digit db) digits)"

definition whole_word :: "unicode_tables \<Rightarrow> py_str \<Rightarrow> py_str \<Rightarrow> bool" where
  "whole_word db pre post =
     ((pre = [] \<or> \<not> is_word_char db (last pre)) \<and> (post = [] \<or> \<not> is_word_char db (hd post)))"

definition contains_error_code_token :: "unicode_tables \<Rightarrow> py_str \<Rightarrow> bool" where
  "contains_error_code_token db s =
     (\<exists>pre tok post. s = pre @ tok @ post \<and> error_code_token db tok \<and> whole_word db pre post)"

definition contains_substring :: "py_str \<Rightarrow> py_str \<Rightarrow> bool" where
  "contains_substring s k = (\<exists>pre post. s = pre @ k @ post)"

section \<open>The ingestion pipeline (backend/rag_ingest.py)\<close>

text \<open>
  One row of the CSV as \<^verbatim>\<open>load_error_codes\<close> returns it: a dictionary with the keys
  \<^verbatim>\<open>code\<close>, \<^verbatim>\<open>name\<close> and \<^verbatim>\<open>description\<close>.
\<close>

record error_code =
  code :: string
  name :: string
  description :: string

text \<open>
  One entry of the metadata list, with the keys \<^verbatim>\<open>id\<close>, \<^verbatim>\<open>category\<close>, \<^verbatim>\<open>type\<close>,
  \<^verbatim>\<open>code\<close>, \<^verbatim>\<open>name\<close>, \<^verbatim>\<open>description\<close> and \<^verbatim>\<open>text\<close> (each prefixed here).
\<close>

record metadata_entry =
  md_id :: nat
  md_category :: string
  md_type :: string
  md_code :: string
  md_name :: string
  md_description :: string
  md_text :: string

text \<open>
  The category index is a dictionary from a category to the list of its ids; it is kept
  as an association list in insertion order, which is also the order of the JSON file.
\<close>

type_synonym category_index = "(string \<times> nat list) list"

text \<open>
  The lines that \<^verbatim>\<open>ingest_error_codes\<close> itself sends to the logger, without their
  formatting and without the text of a caught exception.
\<close>

datatype log_event =
    LogStart
  | LogProcessing nat nat string
  | LogFailed string
  | LogGenerated nat
  | LogSavedIndex
  | LogSavedMetadata
  | LogSavedCategoryIndex
  | LogBreakdown "(string \<times> nat) list"
  | LogComplete nat

text \<open>
  The two ways in which the pipeline raises after the loop; both are a \<^verbatim>\<open>ValueError\<close>
  in the source, the second one raised by \<^verbatim>\<open>np.vstack\<close> on rows of different lengths.
\<close>

datatype ingest_error = NoEmbeddings | DimensionMismatch

text \<open>
  The state of the loop: the three local variables and the log. A vector is a list over
  a type \<open>'f\<close> of numbers; the pipeline never computes with them.
\<close>

record 'f ingest_state =
  embeddings :: "'f list list"
  metadata :: "metadata_entry list"
  category_index :: category_index
  logged :: "log_event list"

text \<open>
  The three files of the vector store directory; \<open>None\<close> is a file that does not exist.
  The index file holds the rows that were added to the FAISS index, in order: row \<open>i\<close> of
  the file is the vector that FAISS numbers \<open>i\<close>.
\<close>

record 'f store_files =
  index_file :: "'f list list option"
  metadata_file :: "metadata_entry list option"
  category_index_file :: "category_index option"

text \<open>
  \<^verbatim>\<open>generate_embedding\<close> calls a remote model and either returns a vector or raises.
  It is a parameter of the model: \<open>generate_embedding i text\<close> is the outcome of the call
  made for the input record at position \<open>i\<close>, and \<open>None\<close> is a call that raises.
\<close>

type_synonym 'f embedder = "nat \<Rightarrow> string \<Rightarrow> 'f list option"

definition format_error_text :: "error_code \<Rightarrow> string" where
  "format_error_text error =
     ''Error '' @ code error @ '': '' @ name error @ '' - '' @ description error"

text \<open>
  \<^verbatim>\<open>category_index[key].append(i)\<close>; \<open>None\<close> is the \<^verbatim>\<open>KeyError\<close> of a missing key.
\<close>

fun dict_append :: "string \<Rightarrow> nat \<Rightarrow> category_index \<Rightarrow> category_index option" where
  "dict_append key i [] = None"
| "dict_append key i ((k, ids) # rest) =
     (if k = key then Some ((k, ids @ [i]) # rest)
      else map_option ((#) (k, ids)) (dict_append key i rest))"

text \<open>
  The body of the loop for the record \<open>error\<close> at position \<open>i\<close> of \<open>n\<close> records. Every
  exception raised inside the \<^verbatim>\<open>try\<close> block is caught, logged, and the loop continues
  with what the block had already appended.
\<close>

definition ingest_step ::
  "'f embedder \<Rightarrow> nat \<Rightarrow> nat \<Rightarrow> error_code \<Rightarrow> 'f ingest_state \<Rightarrow> 'f ingest_state" where
  "ingest_step generate_embedding n i error st =
     (let text = format_error_text error;
          st1 = st\<lparr>logged := logged st @ [LogProcessing (i + 1) n (code error)]\<rparr>
      in case generate_embedding i text of
           None \<Rightarrow> st1\<lparr>logged := logged st1 @ [LogFailed (code error)]\<rparr>
         | Some embedding \<Rightarrow>
             let st2 = st1\<lparr>embeddings := embeddings st1 @ [embedding]\<rparr>;
                 st3 = st2\<lparr>metadata := metadata st2 @
                         [\<lparr>md_id = i, md_category = CATEGORY_ERROR_CODES, md_type = ''text'',
                           md_code = code error, md_name = name error,
                           md_description = description error, md_text = text\<rparr>]\<rparr>
             in case dict_append CATEGORY_ERROR_CODES i (category_index st3) of
                  None \<Rightarrow> st3\<lparr>logged := logged st3 @ [LogFailed (code error)]\<rparr>
                | Some ci \<Rightarrow> st3\<lparr>category_index := ci\<rparr>)"

text \<open>\<^verbatim>\<open>for i, error in enumerate(error_codes)\<close>, from position \<open>i\<close> on.\<close>

fun ingest_loop ::
  "'f embedder \<Rightarrow> nat \<Rightarrow> nat \<Rightarrow> error_code list \<Rightarrow> 'f ingest_state \<Rightarrow> 'f ingest_state" where
  "ingest_loop generate_embedding n i [] st = st"
| "ingest_loop generate_embedding n i (error # rest) st =
     ingest_loop generate_embedding n (Suc i) rest
       (ingest_step generate_embedding n i error st)"

definition initial_state :: "'f ingest_state" where
  "initial_state =
     \<lparr>embeddings = [], metadata = [],
      category_index = [(CATEGORY_ERROR_CODES, []), (CATEGORY_SCHEMATICS, []),
                        (CATEGORY_GENERAL, [])],
      logged = [LogStart]\<rparr>"

text \<open>\<^verbatim>\<open>np.vstack\<close> of a non-empty list of vectors: the rows must have one length.\<close>

definition vstack :: "'f list list \<Rightarrow> ingest_error + 'f list list" where
  "vstack rows =
     (if list_all (\<lambda>row. length row = length (hd rows)) rows then Inr rows
      else Inl DimensionMismatch)"

text \<open>
  The three writes at the end of the pipeline, in the order of the source. Each one
  replaces one file in place; the source has no staging directory and no rename.
\<close>

definition write_steps ::
  "'f list list \<Rightarrow> 'f ingest_state \<Rightarrow> ('f store_files \<Rightarrow> 'f store_files) list" where
  "write_steps rows st =
     [\<lambda>fs. fs\<lparr>index_file := Some rows\<rparr>,
      \<lambda>fs. fs\<lparr>metadata_file := Some (metadata st)\<rparr>,
      \<lambda>fs. fs\<lparr>category_index_file := Some (category_index st)\<rparr>]"

text \<open>
  The file-system states that a run of writes passes through, the starting state first:
  the states of the directory before, between and after the write statements. The states
  of a file while it is being written are not modelled.
\<close>

fun run_steps :: "('s \<Rightarrow> 's) list \<Rightarrow> 's \<Rightarrow> 's list" where
  "run_steps [] fs = [fs]"
| "run_steps (w # ws) fs = fs # run_steps ws (w fs)"

text \<open>
  \<^verbatim>\<open>ingest_error_codes\<close> after the CSV is loaded. The result is the exception raised or
  the final state of the loop, then the states of the store directory during the run
  (the last one is the state the run leaves), then the log.
\<close>

definition ingest_error_codes ::
  "'f embedder \<Rightarrow> error_code list \<Rightarrow> 'f store_files
     \<Rightarrow> (ingest_error + 'f ingest_state) \<times> 'f store_files list \<times> log_event list" where
  "ingest_error_codes generate_embedding error_codes fs =
     (let st = ingest_loop generate_embedding (length error_codes) 0 error_codes
                 initial_state
      in if embeddings st = [] then (Inl NoEmbeddings, [fs], logged st)
         else case vstack (embeddings st) of
                Inl e \<Rightarrow> (Inl e, [fs], logged st)
              | Inr embeddings_array \<Rightarrow>
                  (Inr st, run_steps (write_steps embeddings_array st) fs,
                   logged st @ [LogGenerated (length (embeddings st)), LogSavedIndex,
                             LogSavedMetadata, LogSavedCategoryIndex,
                             LogBreakdown (map (\<lambda>(k, v). (k, length v)) (category_index st)),
                             LogComplete (length (embeddings st))]))"

text \<open>The outcome, the store directory after the run, and the log of a run.\<close>

definition ingest_result ::
  "'f embedder \<Rightarrow> error_code list \<Rightarrow> 'f store_files \<Rightarrow> ingest_error + 'f ingest_state" where
  "ingest_result generate_embedding error_codes fs =
     fst (ingest_error_codes generate_embedding error_codes fs)"

definition ingest_trace ::
  "'f embedder \<Rightarrow> error_code list \<Rightarrow> 'f store_files \<Rightarrow> 'f store_files list" where
  "ingest_trace generate_embedding error_codes fs =
     fst (snd (ingest_error_codes generate_embedding error_codes fs))"

definition ingest_files ::
  "'f embedder \<Rightarrow> error_code list \<Rightarrow> 'f store_files \<Rightarrow> 'f store_files" where
  "ingest_files generate_embedding error_codes fs =
     last (ingest_trace generate_embedding error_codes fs)"

definition ingest_log ::
  "'f embedder \<Rightarrow> error_code list \<Rightarrow> 'f store_files \<Rightarrow> log_event list" where
  "ingest_log generate_embedding error_codes fs =
     snd (snd (ingest_error_codes generate_embedding error_codes fs))"

text \<open>
  The input records whose embedding call returned a vector, each with its position in
  the input.
\<close>

definition embedded :: "'f embedder \<Rightarrow> nat \<Rightarrow> error_code list \<Rightarrow> (nat \<times> error_code) list" where
  "embedded generate_embedding i error_codes =
     filter (\<lambda>(j, error). generate_embedding j (format_error_text error) \<noteq> None)
       (enumerate i error_codes)"

text \<open>The metadata entry that the loop appends for the record \<open>error\<close> at position \<open>j\<close>.\<close>

definition entry_for :: "nat \<times> error_code \<Rightarrow> metadata_entry" where
  "entry_for = (\<lambda>(j, error).
     \<lparr>md_id = j, md_category = CATEGORY_ERROR_CODES, md_type = ''text'',
      md_code = code error, md_name = name error, md_description = description error,
      md_text = format_error_text error\<rparr>)"

text \<open>The lines that the loop logs for the record \<open>error\<close> at position \<open>j\<close> of \<open>n\<close>.\<close>

definition events_for :: "'f embedder \<Rightarrow> nat \<Rightarrow> nat \<times> error_code \<Rightarrow> log_event list" where
  "events_for generate_embedding n = (\<lambda>(j, error).
     LogProcessing (j + 1) n (code error) #
     (if generate_embedding j (format_error_text error) = None then [LogFailed (code error)]
      else []))"

text \<open>
  The vectors that the embedding calls return for the records of a run all have length
  \<open>d\<close>.
\<close>

definition uniform_dimension :: "'f embedder \<Rightarrow> nat \<Rightarrow> error_code list \<Rightarrow> bool" where
  "uniform_dimension generate_embedding d error_codes =
     list_all (\<lambda>(j, error). case generate_embedding j (format_error_text error) of
                               None \<Rightarrow> True | Some v \<Rightarrow> length v = d)
       (enumerate 0 error_codes)"

subsection \<open>Inputs of the examples\<close>

definition lg_errors :: "error_code list" where
  "lg_errors =
     [\<lparr>code = ''IE'', name = ''Inlet Error'', description = ''No water''\<rparr>,
      \<lparr>code = ''UE'', name = ''Unbalanced'', description = ''Uneven load''\<rparr>,
      \<lparr>code = ''DE'', name = ''Drain Error'', description = ''Not draining''\<rparr>,
      \<lparr>code = ''FE'', name = ''Fill Error'', description = ''Overfilled''\<rparr>,
      \<lparr>code = ''dE'', name = ''Door Error'', description = ''Door open''\<rparr>]"

text \<open>An embedder whose call number \<open>k\<close> raises and whose other calls return a vector.\<close>

definition failing_at :: "nat \<Rightarrow> int embedder" where
  "failing_at k = (\<lambda>i text. if i = k then None else Some [int i, int (length text)])"

definition always_failing :: "int embedder" where
  "always_failing = (\<lambda>i text. None)"

definition no_store :: "int store_files" where
  "no_store = \<lparr>index_file = None, metadata_file = None, category_index_file = None\<rparr>"

definition old_store :: "int store_files" where
  "old_store =
     \<lparr>index_file = Some [[7, 7]],
      metadata_file = Some [entry_for (0, \<lparr>code = ''PE'', name = ''Pressure'',
                                          description = ''Sensor''\<rparr>)],
      category_index_file = Some [(CATEGORY_ERROR_CODES, [0]), (CATEGORY_SCHEMATICS, []),
                                  (CATEGORY_GENERAL, [])]\<rparr>"

section \<open>The retriever (backend/rag_retrieve.py)\<close>

text \<open>
  \<^verbatim>\<open>backend/main.py\<close> imports \<^verbatim>\<open>search_manual\<close> from \<^verbatim>\<open>backend/rag_retrieve.py\<close>, a
  module of the repository that is not among its source files here. The definitions of
  this section follow the specification of the retriever, sections 3, 4.3 and 6.
\<close>

text \<open>
  Modelled from the spec: the Category Index Store that \<^verbatim>\<open>rag_retrieve.py\<close> loads: the
  vector index (row \<open>i\<close> is the vector of record \<open>i\<close>), the metadata table indexed by id,
  and the map from a category label to the ids of its partition.
\<close>

record category_index_store =
  vector_index :: "real list list"
  metadata_table :: "metadata_entry list"
  partition_map :: category_index

text \<open>Modelled from the spec: a Match, a retrieved record with its similarity score.\<close>

record match =
  match_id :: nat
  match_code :: string
  match_name :: string
  match_description :: string
  similarity_score :: real

text \<open>Modelled from the spec: the failures of a search that section 4.3 and 6 name.\<close>

datatype search_error = IndexUnavailable | EmbeddingUnavailable | DimensionMismatchAtQuery

text \<open>Modelled from the spec: the partition of a category, empty for a label not in the map.\<close>

definition partition_of :: "category_index_store \<Rightarrow> string \<Rightarrow> nat list" where
  "partition_of store C = (case map_of (partition_map store) C of Some ids \<Rightarrow> ids | None \<Rightarrow> [])"

text \<open>
  Modelled from the spec: the candidate id set of \<^verbatim>\<open>rag_retrieve.py\<close>: the partition of the
  category that the hint names, or all ids when the hint is ``no restriction''. The
  specification does not say what an id without a row or without a record is; here it
  is no candidate.
\<close>

definition candidate_ids :: "category_index_store \<Rightarrow> string option \<Rightarrow> nat list" where
  "candidate_ids store category_hint =
     filter (\<lambda>i. i < length (vector_index store) \<and> i < length (metadata_table store))
       (case category_hint of
          None \<Rightarrow> [0..<length (vector_index store)]
        | Some C \<Rightarrow> partition_of store C)"

text \<open>Modelled from the spec: the squared Euclidean distance and the similarity transform.\<close>

definition l2_distance :: "real list \<Rightarrow> real list \<Rightarrow> real" where
  "l2_distance u v = sum_list (map (\<lambda>(a, b). (a - b) * (a - b)) (zip u v))"

definition similarity :: "real \<Rightarrow> real" where
  "similarity distance = 1 / (1 + distance)"

text \<open>Modelled from the spec: the Match of record \<open>i\<close> with score \<open>s\<close>.\<close>

definition make_match :: "category_index_store \<Rightarrow> nat \<times> real \<Rightarrow> match" where
  "make_match store = (\<lambda>(i, s).
     \<lparr>match_id = i, match_code = md_code (metadata_table store ! i),
      match_name = md_name (metadata_table store ! i),
      match_description = md_description (metadata_table store ! i),
      similarity_score = s\<rparr>)"

text \<open>
  Modelled from the spec: the search of \<^verbatim>\<open>rag_retrieve.py\<close>, section 4.3: embed the query
  text, take the candidates of the hinted category, score each by the similarity to the
  query vector, drop the scores strictly below the threshold, sort by similarity
  descending and id ascending, and cut to \<open>top_k\<close>. The image is an argument that the
  search does not read. A store that is not loaded is \<open>None\<close>. The specification states
  no outcome for \<open>top_k = 0\<close>; the cut then leaves nothing.
\<close>

definition search ::
  "(string \<Rightarrow> real list option) \<Rightarrow> category_index_store option \<Rightarrow> real
     \<Rightarrow> string \<Rightarrow> 'b option \<Rightarrow> string option \<Rightarrow> nat \<Rightarrow> search_error + match list" where
  "search embedder loaded threshold query_text query_image_bytes category_hint top_k =
     (case loaded of
        None \<Rightarrow> Inl IndexUnavailable
      | Some store \<Rightarrow>
          if vector_index store = [] then Inl IndexUnavailable
          else case embedder query_text of
                 None \<Rightarrow> Inl EmbeddingUnavailable
               | Some q \<Rightarrow>
                   if \<not> list_all (\<lambda>row. length row = length q) (vector_index store)
                   then Inl DimensionMismatchAtQuery
                   else
                     let scored = map (\<lambda>i. (i, similarity (l2_distance q (vector_index store ! i))))
                                    (candidate_ids store category_hint);
                         kept = filter (\<lambda>(i, s). \<not> s < threshold) scored;
                         ranked = sort_key (\<lambda>(i, s). (- s, i)) kept
                     in Inr (map (make_match store) (take top_k ranked)))"

text \<open>
  Modelled from the spec: the invariant of a built store, section 3: the metadata table
  and the vector index have the same ids, every id of a partition is an id of the store
  whose record has that category, and every id of the store is in the partition of its
  record's category. So every id is in exactly one partition.
\<close>

definition well_formed_store :: "category_index_store \<Rightarrow> bool" where
  "well_formed_store store =
     (length (metadata_table store) = length (vector_index store)
      \<and> distinct (map fst (partition_map store))
      \<and> list_all (\<lambda>(C, ids). distinct ids \<and>
            list_all (\<lambda>i. i < length (metadata_table store)
                          \<and> md_category (metadata_table store ! i) = C) ids)
          (partition_map store)
      \<and> list_all (\<lambda>i. i \<in> set (partition_of store (md_category (metadata_table store ! i))))
          [0..<length (vector_index store)])"

subsection \<open>The store of scenario 1\<close>

definition scenario_store :: category_index_store where
  "scenario_store =
     \<lparr>vector_index = [[1, 0], [0, 1], [1, 1]],
      metadata_table =
        [\<lparr>md_id = 0, md_category = ''ERROR_CODES'', md_type = ''text'', md_code = ''IE'',
          md_name = ''Inlet Error'', md_description = ''No water'',
          md_text = ''Error IE: Inlet Error - No water''\<rparr>,
         \<lparr>md_id = 1, md_category = ''ERROR_CODES'', md_type = ''text'', md_code = ''UE'',
          md_name = ''Unbalanced'', md_description = ''Uneven load'',
          md_text = ''Error UE: Unbalanced - Uneven load''\<rparr>,
         \<lparr>md_id = 2, md_category = ''SCHEMATICS'', md_type = ''text'', md_code = ''SCH1'',
          md_name = ''Board'', md_description = ''Main board'',
          md_text = ''Error SCH1: Board - Main board''\<rparr>],
      partition_map = [(''ERROR_CODES'', [0, 1]), (''SCHEMATICS'', [2]), (''GENERAL'', [])]\<rparr>"

text \<open>An embedder that places every query at the vector of record 2.\<close>

definition scenario_embedder :: "string \<Rightarrow> real list option" where
  "scenario_embedder query_text = Some [1, 1]"

section \<open>The router: pattern search and substring search\<close>

lemma starts_with_iff: "starts_with s k = (\<exists>post. s = k @ post)"
  by (induction s k rule: starts_with.induct) auto

lemma str_contains_iff: "str_contains s k = contains_substring s k"
proof (induction s)
  case Nil
  show ?case by (auto simp: starts_with_iff contains_substring_def)
next
  case (Cons c cs)
  show ?case
  proof
    assume "str_contains (c # cs) k"
    then consider "starts_with (c # cs) k" | "contains_substring cs k"
      using Cons.IH by auto
    then show "contains_substring (c # cs) k"
    proof cases
      case 1
      then obtain post where "c # cs = k @ post" by (auto simp: starts_with_iff)
      then have "c # cs = [] @ k @ post" by simp
      then show ?thesis unfolding contains_substring_def by blast
    next
      case 2
      then obtain pre post where "cs = pre @ k @ post" by (auto simp: contains_substring_def)
      then have "c # cs = (c # pre) @ k @ post" by simp
      then show ?thesis unfolding contains_substring_def by blast
    qed
  next
    assume "contains_substring (c # cs) k"
    then obtain pre post where eq: "c # cs = pre @ k @ post" by (auto simp: contains_substring_def)
    show "str_contains (c # cs) k"
    proof (cases pre)
      case Nil
      with eq have "starts_with (c # cs) k" by (auto simp: starts_with_iff)
      then show ?thesis by simp
    next
      case (Cons p ps)
      with eq have "cs = ps @ k @ post" by simp
      then have "contains_substring cs k" unfolding contains_substring_def by blast
      then show ?thesis using Cons.IH by simp
    qed
  qed
qed

lemma word_boundary_split:
  "word_boundary db (pre @ post) (length pre) =
     ((pre \<noteq> [] \<and> is_word_char db (last pre)) \<noteq> (post \<noteq> [] \<and> is_word_char db (hd post)))"
proof -
  have a: "pre \<noteq> [] \<Longrightarrow> (pre @ post) ! (length pre - 1) = last pre"
    by (simp add: nth_append last_conv_nth)
  have b: "post \<noteq> [] \<Longrightarrow> (pre @ post) ! (length pre) = hd post"
    by (simp add: nth_append hd_conv_nth)
  show ?thesis
    unfolding word_boundary_def using a b by (cases "pre = []"; cases "post = []") auto
qed

lemma repeat_iff:
  "match_here db (Repeat cls lo hi # items) s i =
     (\<exists>n. lo \<le> n \<and> n \<le> hi \<and> i + n \<le> length s \<and> list_all (in_class db cls) (take n (drop i s))
          \<and> match_here db items s (i + n))"
  by (auto simp: list_ex_iff)

lemma in_class_conv: "in_class db UpperAZ = is_upper_AZ" "in_class db Digit = is_digit db"
  by (rule ext, simp)+

lemma match_here_error_code_pattern:
  "match_here db error_code_pattern s i =
     (word_boundary db s i \<and>
      (\<exists>n d. 1 \<le> n \<and> n \<le> 3 \<and> d \<le> 1 \<and> i + n + d \<le> length s
         \<and> list_all is_upper_AZ (take n (drop i s))
         \<and> list_all (is_digit db) (take d (drop (i + n) s))
         \<and> word_boundary db s (i + n + d)))"
proof -
  have "match_here db error_code_pattern s i =
     (word_boundary db s i \<and>
      (\<exists>n. 1 \<le> n \<and> n \<le> 3 \<and> i + n \<le> length s \<and> list_all is_upper_AZ (take n (drop i s)) \<and>
        (\<exists>d. 0 \<le> d \<and> d \<le> 1 \<and> i + n + d \<le> length s
           \<and> list_all (is_digit db) (take d (drop (i + n) s))
           \<and> word_boundary db s (i + n + d) \<and> True)))"
    by (simp only: error_code_pattern_def match_here.simps(1,2) repeat_iff in_class_conv)
  also have "\<dots> = (word_boundary db s i \<and>
      (\<exists>n d. 1 \<le> n \<and> n \<le> 3 \<and> d \<le> 1 \<and> i + n + d \<le> length s
         \<and> list_all is_upper_AZ (take n (drop i s))
         \<and> list_all (is_digit db) (take d (drop (i + n) s))
         \<and> word_boundary db s (i + n + d)))"
    by (intro arg_cong2[where f="(\<and>)"] refl ex_cong1 iffI; (elim exE conjE)?)
       ((intro exI conjI)?; (assumption | simp))+
  finally show ?thesis .
qed

lemma is_upper_word: "unicode_classes db \<Longrightarrow> is_upper_AZ c \<Longrightarrow> is_word_char db c"
  by (simp add: unicode_classes_def)

lemma is_digit_word: "unicode_classes db \<Longrightarrow> is_digit db c \<Longrightarrow> is_word_char db c"
  by (simp add: unicode_classes_def)

lemma token_first_word:
  assumes "unicode_classes db" and "error_code_token db tok"
  shows "tok \<noteq> [] \<and> is_word_char db (hd tok) \<and> is_word_char db (last tok)"
proof -
  note cls = assms(1)
  from assms(2) obtain ls ds where t: "tok = ls @ ds" "1 \<le> length ls" "list_all is_upper_AZ ls"
    "list_all (is_digit db) ds"
    by (auto simp: error_code_token_def)
  then have ne: "ls \<noteq> []" by auto
  then have "is_upper_AZ (hd ls)" using t(3) by (cases ls) auto
  then have h: "is_word_char db (hd tok)" using t(1) ne by (simp add: is_upper_word[OF cls])
  have "is_word_char db (last tok)"
  proof (cases "ds = []")
    case True
    then have "last tok = last ls" using t(1) by simp
    moreover have "is_upper_AZ (last ls)" using t(3) ne by (simp add: list_all_iff)
    ultimately show ?thesis by (simp add: is_upper_word[OF cls])
  next
    case False
    then have "last tok = last ds" using t(1) by simp
    moreover have "is_digit db (last ds)" using t(4) False by (simp add: list_all_iff)
    ultimately show ?thesis by (simp add: is_digit_word[OF cls])
  qed
  with h ne t(1) show ?thesis by simp
qed

lemma token_match:
  assumes "unicode_classes db" and "error_code_token db tok" "whole_word db pre post"
  shows "match_here db error_code_pattern (pre @ tok @ post) (length pre)"
proof -
  from assms(2) obtain ls ds where t: "tok = ls @ ds" "1 \<le> length ls" "length ls \<le> 3"
    "list_all is_upper_AZ ls" "length ds \<le> 1" "list_all (is_digit db) ds"
    by (auto simp: error_code_token_def)
  note tw = token_first_word[OF assms(1,2)]
  have b1: "word_boundary db (pre @ tok @ post) (length pre)"
    using word_boundary_split[of db pre "tok @ post"] tw assms(3)
    by (auto simp: whole_word_def)
  have "length (pre @ tok) = length pre + length ls + length ds" by (simp add: t(1))
  moreover have "word_boundary db ((pre @ tok) @ post) (length (pre @ tok))"
    unfolding word_boundary_split using tw assms(3) by (auto simp: whole_word_def)
  ultimately have b2: "word_boundary db (pre @ tok @ post) (length pre + length ls + length ds)"
    by (simp add: add.assoc)
  show ?thesis
    unfolding match_here_error_code_pattern
    using b1 b2 t by (intro conjI exI[of _ "length ls"] exI[of _ "length ds"]) (auto simp: t(1))
qed

lemma match_token:
  assumes "unicode_classes db" and "i \<le> length s" "match_here db error_code_pattern s i"
  shows "contains_error_code_token db s"
proof -
  from assms(3) obtain n d where m: "word_boundary db s i" "1 \<le> n" "n \<le> 3" "d \<le> 1"
    "i + n + d \<le> length s" "list_all is_upper_AZ (take n (drop i s))"
    "list_all (is_digit db) (take d (drop (i + n) s))" "word_boundary db s (i + n + d)"
    unfolding match_here_error_code_pattern by blast
  define pre where "pre = take i s"
  define ls where "ls = take n (drop i s)"
  define ds where "ds = take d (drop (i + n) s)"
  define post where "post = drop (i + n + d) s"
  define tok where "tok = ls @ ds"
  have lens: "length pre = i" "length ls = n" "length ds = d"
    using m(5) by (auto simp: pre_def ls_def ds_def)
  have s: "s = pre @ tok @ post"
  proof -
    have "drop d (drop n (drop i s)) = post" by (simp add: post_def add.commute add.left_commute)
    moreover have "take d (drop n (drop i s)) = ds" by (simp add: ds_def add.commute)
    ultimately have "drop n (drop i s) = ds @ post"
      using append_take_drop_id[of d "drop n (drop i s)"] by simp
    then have "drop i s = ls @ ds @ post"
      using append_take_drop_id[of n "drop i s"] by (simp add: ls_def)
    then have "take i s @ drop i s = pre @ tok @ post" by (simp add: pre_def tok_def)
    then show ?thesis by (simp only: append_take_drop_id)
  qed
  have tok: "error_code_token db tok"
    unfolding error_code_token_def using m lens
    by (intro exI[of _ ls] exI[of _ ds]) (auto simp: tok_def ls_def ds_def)
  note tw = token_first_word[OF assms(1) tok]
  have "word_boundary db (pre @ tok @ post) (length pre)" using m(1) s lens by simp
  then have w1: "pre = [] \<or> \<not> is_word_char db (last pre)"
    using word_boundary_split[of db pre "tok @ post"] tw by auto
  have "length (pre @ tok) = i + n + d" using lens by (simp add: tok_def)
  then have "word_boundary db ((pre @ tok) @ post) (length (pre @ tok))" using m(8) s by simp
  then have w2: "post = [] \<or> \<not> is_word_char db (hd post)"
    using word_boundary_split[of db "pre @ tok" post] tw by auto
  show ?thesis
    unfolding contains_error_code_token_def whole_word_def using s tok w1 w2 by blast
qed

lemma re_search_error_code_pattern:
  assumes "unicode_classes db"
  shows "re_search db error_code_pattern s = contains_error_code_token db s"
proof
  assume "re_search db error_code_pattern s"
  then obtain i where "i \<in> set [0..<Suc (length s)]" "match_here db error_code_pattern s i"
    unfolding re_search_def list_ex_iff by blast
  then have "i \<le> length s" "match_here db error_code_pattern s i" by auto
  then show "contains_error_code_token db s" by (rule match_token[OF assms])
next
  assume "contains_error_code_token db s"
  then obtain pre tok post where s: "s = pre @ tok @ post" "error_code_token db tok"
    "whole_word db pre post"
    by (auto simp: contains_error_code_token_def)
  have "match_here db error_code_pattern s (length pre)" using token_match[OF assms s(2,3)] s(1) by simp
  moreover have "length pre \<le> length s" using s(1) by simp
  ultimately show "re_search db error_code_pattern s"
    unfolding re_search_def list_ex_iff by (intro bexI[of _ "length pre"]) auto
qed


lemma upper_char_letter: "is_letter c \<Longrightarrow> is_upper_AZ (upper_char c)"
  by (auto simp: upper_char_def is_letter_def is_upper_AZ_def is_lower_az_def)

lemma upper_char_word: "ascii_word_char (upper_char c) = ascii_word_char c"
  by (auto simp: upper_char_def ascii_word_char_def is_letter_def is_upper_AZ_def
      is_lower_az_def ascii_digit_def)

lemma upper_char_ascii: "is_ascii c \<Longrightarrow> is_ascii (upper_char c)"
  by (auto simp: upper_char_def is_ascii_def)

lemma ascii_classes: "ascii_behaviour db \<Longrightarrow> is_upper_AZ c \<Longrightarrow> is_word_char db c"
  by (auto simp: ascii_behaviour_def is_ascii_def is_upper_AZ_def ascii_word_char_def
      is_letter_def)

lemma whole_word_upper:
  assumes "ascii_behaviour db" and "ascii_text pre" and "ascii_text post"
    and "whole_word db pre post"
  shows "whole_word db (map upper_char pre) (map upper_char post)"
proof -
  have w: "is_word_char db (upper_char c) = is_word_char db c" if "is_ascii c" for c
    using assms(1) that upper_char_ascii[OF that]
    by (simp add: ascii_behaviour_def upper_char_word)
  have "pre = [] \<or> \<not> is_word_char db (last (map upper_char pre))"
  proof (cases "pre = []")
    case False
    then have "is_ascii (last pre)" using assms(2) by (simp add: ascii_text_def list_all_iff)
    with False assms(4) show ?thesis by (simp add: last_map w whole_word_def)
  qed simp
  moreover have "post = [] \<or> \<not> is_word_char db (hd (map upper_char post))"
  proof (cases "post = []")
    case False
    then have "is_ascii (hd post)" using assms(3) by (simp add: ascii_text_def list_all_iff)
    with False assms(4) show ?thesis by (simp add: hd_map w whole_word_def)
  qed simp
  ultimately show ?thesis by (auto simp: whole_word_def)
qed

lemma sample_tables_classes: "unicode_classes sample_tables"
  by (auto simp: unicode_classes_def sample_tables_def ascii_word_char_def is_letter_def)

lemma sample_upper_ascii: "is_ascii c \<Longrightarrow> sample_upper c = [upper_char c]"
  by (simp add: sample_upper_def is_ascii_def)

lemma sample_lower_ascii: "is_ascii c \<Longrightarrow> sample_lower c = [lower_char c]"
  by (simp add: sample_lower_def is_ascii_def)

lemma concat_singletons: "\<forall>c \<in> set s. f c = [g c] \<Longrightarrow> concat (map f s) = map g s"
  by (induction s) auto

lemma sample_tables_ascii: "ascii_behaviour sample_tables"
proof -
  have "concat (map sample_upper s) = map upper_char s" if "ascii_text s" for s
    using that by (intro concat_singletons) (simp add: ascii_text_def list_all_iff sample_upper_ascii)
  moreover have "concat (map sample_lower s) = map lower_char s" if "ascii_text s" for s
    using that by (intro concat_singletons) (simp add: ascii_text_def list_all_iff sample_lower_ascii)
  ultimately show ?thesis
    by (auto simp: ascii_behaviour_def sample_tables_def is_ascii_def)
qed

section \<open>The router: the rules and their order\<close>

lemma keywords_iff:
  "list_ex (\<lambda>keyword. str_contains s keyword) error_keywords =
     (\<exists>keyword \<in> {py_str ''error'', py_str ''code'', py_str ''display'', py_str ''showing'',
                    py_str ''flashing''}.
         contains_substring s keyword)"
  unfolding list_ex_iff error_keywords_def str_contains_iff by (simp only: list.set)

text \<open>
  Claim C4. With an image attached the router returns SCHEMATICS for every query text:
  the first test of \<open>detect_intent\<close> returns before the text is read, so a text holding an
  error code or an error keyword makes no difference.
\<close>

theorem detect_intent_image: "detect_intent db text True = Some CATEGORY_SCHEMATICS"
  by (simp add: detect_intent_def)

text \<open>
  Claim C5. Without an image, for every query text, the router applies three rules in
  this order: the uppercased text contains a whole-word token of one to three uppercase
  letters optionally followed by one digit, then ERROR_CODES; otherwise the lowercased
  text contains one of the five keywords as a substring, then ERROR_CODES; otherwise no
  restriction. This holds for all tables of Unicode in which the letters A to Z and the
  decimal digits are word characters, as they are in Python.
\<close>

theorem detect_intent_no_image:
  assumes "unicode_classes db"
  shows "detect_intent db text False =
     (if contains_error_code_token db (str_upper db text) then Some CATEGORY_ERROR_CODES
      else if \<exists>keyword \<in> {py_str ''error'', py_str ''code'', py_str ''display'',
                             py_str ''showing'', py_str ''flashing''}.
                contains_substring (str_lower db text) keyword
        then Some CATEGORY_ERROR_CODES
      else None)"
  unfolding detect_intent_def re_search_error_code_pattern[OF assms] keywords_iff
  by (simp only: if_False)

theorem detect_intent_no_image_witness:
  "unicode_classes sample_tables
   \<and> contains_error_code_token sample_tables (str_upper sample_tables (py_str ''dE1 flashing''))
   \<and> detect_intent sample_tables (py_str ''dE1 flashing'') False = Some CATEGORY_ERROR_CODES
   \<and> \<not> contains_error_code_token sample_tables (str_upper sample_tables (py_str ''DISPLAY''))
   \<and> (\<exists>keyword \<in> {py_str ''error'', py_str ''code'', py_str ''display'',
                      py_str ''showing'', py_str ''flashing''}.
          contains_substring (str_lower sample_tables (py_str ''DISPLAY'')) keyword)
   \<and> \<not> contains_substring (py_str ''DISPLAY'') (py_str ''display'')
   \<and> detect_intent sample_tables (py_str ''DISPLAY'') False = Some CATEGORY_ERROR_CODES
   \<and> \<not> contains_error_code_token sample_tables
         (str_upper sample_tables (py_str ''washer leaking water''))
   \<and> \<not> (\<exists>keyword \<in> {py_str ''error'', py_str ''code'', py_str ''display'',
                        py_str ''showing'', py_str ''flashing''}.
            contains_substring (str_lower sample_tables (py_str ''washer leaking water''))
              keyword)
   \<and> detect_intent sample_tables (py_str ''washer leaking water'') False = None
   \<and> str_upper sample_tables [233, 97] = [201, 65]
   \<and> \<not> contains_error_code_token sample_tables (str_upper sample_tables [233, 97])
   \<and> detect_intent sample_tables [233, 97] False = None
   \<and> str_upper sample_tables [223] = [83, 83]
   \<and> contains_error_code_token sample_tables (str_upper sample_tables [223])
   \<and> detect_intent sample_tables [223] False = Some CATEGORY_ERROR_CODES
   \<and> contains_error_code_token sample_tables (str_upper sample_tables [73, 69, 1635])
   \<and> detect_intent sample_tables [73, 69, 1635] False = Some CATEGORY_ERROR_CODES"
proof -
  let ?db = sample_tables
  let ?K = "{py_str ''error'', py_str ''code'', py_str ''display'', py_str ''showing'',
             py_str ''flashing''}"
  note c = sample_tables_classes
  note tok = re_search_error_code_pattern[OF c]
  note rule = detect_intent_no_image[OF c]
  have "re_search ?db error_code_pattern (str_upper ?db (py_str ''dE1 flashing''))"
    by code_simp
  then have t1: "contains_error_code_token ?db (str_upper ?db (py_str ''dE1 flashing''))"
    by (simp only: tok)
  have d1: "detect_intent ?db (py_str ''dE1 flashing'') False = Some CATEGORY_ERROR_CODES"
    using rule[of "py_str ''dE1 flashing''"] t1 by (simp only: if_True)
  have "\<not> re_search ?db error_code_pattern (str_upper ?db (py_str ''DISPLAY''))"
    by code_simp
  then have t2: "\<not> contains_error_code_token ?db (str_upper ?db (py_str ''DISPLAY''))"
    by (simp only: tok not_False_eq_True)
  have e2: "detect_intent ?db (py_str ''DISPLAY'') False = Some CATEGORY_ERROR_CODES"
    by code_simp
  have "(if \<exists>keyword \<in> ?K. contains_substring (str_lower ?db (py_str ''DISPLAY'')) keyword
         then Some CATEGORY_ERROR_CODES else None) = Some CATEGORY_ERROR_CODES"
    using rule[of "py_str ''DISPLAY''"] t2 e2 by (simp only: if_False)
  then have k2: "\<exists>keyword \<in> ?K. contains_substring (str_lower ?db (py_str ''DISPLAY'')) keyword"
    by (metis option.distinct(1))
  have "\<not> str_contains (py_str ''DISPLAY'') (py_str ''display'')" by code_simp
  then have r2: "\<not> contains_substring (py_str ''DISPLAY'') (py_str ''display'')"
    by (simp only: str_contains_iff not_False_eq_True)
  have e3: "detect_intent ?db (py_str ''washer leaking water'') False = None" by code_simp
  from rule[of "py_str ''washer leaking water''"] e3
  have "(if contains_error_code_token ?db (str_upper ?db (py_str ''washer leaking water''))
         then Some CATEGORY_ERROR_CODES
         else if \<exists>keyword \<in> ?K.
                   contains_substring (str_lower ?db (py_str ''washer leaking water'')) keyword
           then Some CATEGORY_ERROR_CODES
         else None) = None"
    by (simp only:)
  then have t3: "\<not> contains_error_code_token ?db
        (str_upper ?db (py_str ''washer leaking water''))"
    and k3: "\<not> (\<exists>keyword \<in> ?K.
        contains_substring (str_lower ?db (py_str ''washer leaking water'')) keyword)"
    by (metis option.distinct(1))+
  have u4: "str_upper ?db [233, 97] = [201, 65]" by code_simp
  have e4: "detect_intent ?db [233, 97] False = None" by code_simp
  from rule[of "[233, 97]"] e4
  have "(if contains_error_code_token ?db (str_upper ?db [233, 97])
         then Some CATEGORY_ERROR_CODES
         else if \<exists>keyword \<in> ?K. contains_substring (str_lower ?db [233, 97]) keyword
           then Some CATEGORY_ERROR_CODES
         else None) = None"
    by (simp only:)
  then have t4: "\<not> contains_error_code_token ?db (str_upper ?db [233, 97])"
    by (metis option.distinct(1))
  have u5: "str_upper ?db [223] = [83, 83]" by code_simp
  have "re_search ?db error_code_pattern (str_upper ?db [223])" by code_simp
  then have t5: "contains_error_code_token ?db (str_upper ?db [223])" by (simp only: tok)
  have d5: "detect_intent ?db [223] False = Some CATEGORY_ERROR_CODES"
    using rule[of "[223]"] t5 by (simp only: if_True)
  have "re_search ?db error_code_pattern (str_upper ?db [73, 69, 1635])" by code_simp
  then have t6: "contains_error_code_token ?db (str_upper ?db [73, 69, 1635])"
    by (simp only: tok)
  have d6: "detect_intent ?db [73, 69, 1635] False = Some CATEGORY_ERROR_CODES"
    using rule[of "[73, 69, 1635]"] t6 by (simp only: if_True)
  show ?thesis
    by (intro conjI c t1 d1 t2 k2 r2 e2 t3 k3 e3 u4 t4 e4 u5 t5 d5 t6 d6)
qed

text \<open>
  Claim C10. Without an image, every ASCII text that holds a standalone word of one to
  three letters is routed to ERROR_CODES, whatever else it says: the text is uppercased
  before the pattern is searched, so the short word becomes a token of the pattern. This
  holds for all tables of Unicode that are on ASCII what Python's are. The text
  \<^verbatim>\<open>my washer is loud\<close> is such a text; it holds no keyword, and the pattern does not
  occur in it as typed.
\<close>

theorem short_word_error_codes:
  assumes "ascii_behaviour db" and "ascii_text text" and "text = pre @ w @ post"
    and "1 \<le> length w" and "length w \<le> 3" and "list_all is_letter w"
    and "whole_word db pre post"
  shows "detect_intent db text False = Some CATEGORY_ERROR_CODES"
proof -
  let ?P = "map upper_char pre" and ?W = "map upper_char w" and ?Q = "map upper_char post"
  have up: "str_upper db text = ?P @ ?W @ ?Q"
    using assms(1,2,3) by (simp add: ascii_behaviour_def)
  have ascii: "ascii_text pre" "ascii_text post"
    using assms(2,3) by (simp_all add: ascii_text_def)
  have ww: "whole_word db ?P ?Q" by (rule whole_word_upper[OF assms(1) ascii assms(7)])
  have az: "list_all is_upper_AZ ?W"
    using assms(6) by (simp add: list_all_iff upper_char_letter)
  have ne: "?W \<noteq> []" using assms(4) by auto
  have "hd ?W \<in> set ?W" "last ?W \<in> set ?W"
    using hd_in_set[OF ne] last_in_set[OF ne] by blast+
  then have "is_upper_AZ (hd ?W)" "is_upper_AZ (last ?W)"
    using az unfolding list_all_iff by blast+
  then have wc: "is_word_char db (hd ?W)" "is_word_char db (last ?W)"
    by (simp_all add: ascii_classes[OF assms(1)])
  have b1: "word_boundary db (?P @ ?W @ ?Q) (length ?P)"
    unfolding word_boundary_split[of db ?P "?W @ ?Q"] using ww wc(1) ne
    by (auto simp: whole_word_def)
  have "word_boundary db ((?P @ ?W) @ ?Q) (length (?P @ ?W))"
    unfolding word_boundary_split[of db "?P @ ?W" ?Q] using ww wc(2) ne
    by (auto simp: whole_word_def)
  then have b2: "word_boundary db (?P @ ?W @ ?Q) (length ?P + length ?W + 0)" by simp
  have "match_here db error_code_pattern (?P @ ?W @ ?Q) (length ?P)"
    unfolding match_here_error_code_pattern
    using b1 b2 az assms(4,5)
    by (intro conjI exI[of _ "length ?W"] exI[of _ "0::nat"]) simp_all
  moreover have "length ?P \<in> set [0..<Suc (length (?P @ ?W @ ?Q))]" by simp
  ultimately have "re_search db error_code_pattern (str_upper db text)"
    unfolding re_search_def list_ex_iff up by blast
  then show ?thesis by (simp add: detect_intent_def)
qed

theorem short_word_error_codes_witness:
  "ascii_behaviour sample_tables
   \<and> ascii_text (py_str ''my washer is loud'')
   \<and> py_str ''my washer is loud'' = [] @ py_str ''my'' @ py_str '' washer is loud''
   \<and> 1 \<le> length (py_str ''my'') \<and> length (py_str ''my'') \<le> 3
   \<and> list_all is_letter (py_str ''my'')
   \<and> whole_word sample_tables [] (py_str '' washer is loud'')
   \<and> \<not> re_search sample_tables error_code_pattern (py_str ''my washer is loud'')
   \<and> \<not> list_ex (str_contains (str_lower sample_tables (py_str ''my washer is loud'')))
          error_keywords
   \<and> detect_intent sample_tables (py_str ''my washer is loud'') False
       = Some CATEGORY_ERROR_CODES"
proof -
  note z = sample_tables_ascii
  have a: "ascii_text (py_str ''my washer is loud'')" by code_simp
  have b: "py_str ''my washer is loud'' = [] @ py_str ''my'' @ py_str '' washer is loud''"
    by (simp add: py_str_def)
  have c: "1 \<le> length (py_str ''my'')" by (simp add: py_str_def)
  have c': "length (py_str ''my'') \<le> 3" by (simp add: py_str_def)
  have d: "list_all is_letter (py_str ''my'')" by code_simp
  have e: "whole_word sample_tables [] (py_str '' washer is loud'')" by code_simp
  have f: "\<not> re_search sample_tables error_code_pattern (py_str ''my washer is loud'')"
    by code_simp
  have g: "\<not> list_ex (str_contains (str_lower sample_tables (py_str ''my washer is loud'')))
          error_keywords"
    by code_simp
  note h = short_word_error_codes[OF z a b c c' d e]
  show ?thesis
    by (intro conjI z a b c c' d e f g h)
qed

section \<open>The ingestion loop\<close>

lemma dict_append_hd: "dict_append key i ((key, ids) # rest) = Some ((key, ids @ [i]) # rest)"
  by simp

lemma ingest_step_None:
  assumes "g i (format_error_text r) = None"
  shows "ingest_step g n i r st =
     st\<lparr>logged := logged st @ [LogProcessing (i + 1) n (code r), LogFailed (code r)]\<rparr>"
  using assms by (simp add: ingest_step_def Let_def)

lemma ingest_step_Some:
  assumes "g i (format_error_text r) = Some e"
    and "category_index st = (CATEGORY_ERROR_CODES, ids) # rest"
  shows "ingest_step g n i r st =
     st\<lparr>embeddings := embeddings st @ [e], metadata := metadata st @ [entry_for (i, r)],
        category_index := (CATEGORY_ERROR_CODES, ids @ [i]) # rest,
        logged := logged st @ [LogProcessing (i + 1) n (code r)]\<rparr>"
  using assms by (simp add: ingest_step_def Let_def entry_for_def)

lemma embedded_Cons:
  "embedded g i (r # rs) =
     (if g i (format_error_text r) = None then [] else [(i, r)]) @ embedded g (Suc i) rs"
  by (simp add: embedded_def)

lemma events_for_pair:
  "events_for g n (j, e) =
     LogProcessing (j + 1) n (code e) #
     (if g j (format_error_text e) = None then [LogFailed (code e)] else [])"
  by (simp add: events_for_def)

lemma ingest_loop_fields:
  assumes "category_index st = (CATEGORY_ERROR_CODES, ids) # rest"
  shows "ingest_loop g n i rs st =
     st\<lparr>embeddings := embeddings st @
          map (\<lambda>(j, r). the (g j (format_error_text r))) (embedded g i rs),
        metadata := metadata st @ map entry_for (embedded g i rs),
        category_index := (CATEGORY_ERROR_CODES, ids @ map fst (embedded g i rs)) # rest,
        logged := logged st @ concat (map (events_for g n) (enumerate i rs))\<rparr>"
  using assms
proof (induction rs arbitrary: i st ids)
  case Nil
  then show ?case by (simp add: embedded_def)
next
  case (Cons r rs)
  show ?case
  proof (cases "g i (format_error_text r)")
    case None
    let ?st = "st\<lparr>logged := logged st @ [LogProcessing (i + 1) n (code r), LogFailed (code r)]\<rparr>"
    have ci: "category_index ?st = (CATEGORY_ERROR_CODES, ids) # rest" using Cons.prems by simp
    have "ingest_loop g n i (r # rs) st = ingest_loop g n (Suc i) rs ?st"
      by (simp only: ingest_loop.simps ingest_step_None[of g i r, OF None])
    also note Cons.IH[OF ci]
    finally show ?thesis
      using None by (simp add: embedded_Cons events_for_pair)
  next
    case (Some e)
    let ?st = "st\<lparr>embeddings := embeddings st @ [e], metadata := metadata st @ [entry_for (i, r)],
        category_index := (CATEGORY_ERROR_CODES, ids @ [i]) # rest,
        logged := logged st @ [LogProcessing (i + 1) n (code r)]\<rparr>"
    have ci: "category_index ?st = (CATEGORY_ERROR_CODES, ids @ [i]) # rest" by simp
    have "ingest_loop g n i (r # rs) st = ingest_loop g n (Suc i) rs ?st"
      by (simp only: ingest_loop.simps ingest_step_Some[of g i r, OF Some Cons.prems])
    also note Cons.IH[OF ci]
    finally show ?thesis
      using Some by (simp add: embedded_Cons events_for_pair)
  qed
qed

lemma ingest_loop_initial:
  "ingest_loop g n 0 rs initial_state =
     \<lparr>embeddings = map (\<lambda>(j, r). the (g j (format_error_text r))) (embedded g 0 rs),
      metadata = map entry_for (embedded g 0 rs),
      category_index = [(CATEGORY_ERROR_CODES, map fst (embedded g 0 rs)),
                        (CATEGORY_SCHEMATICS, []), (CATEGORY_GENERAL, [])],
      logged = LogStart # concat (map (events_for g n) (enumerate 0 rs))\<rparr>"
proof -
  have "category_index (initial_state :: 'a ingest_state) =
      (CATEGORY_ERROR_CODES, []) # [(CATEGORY_SCHEMATICS, []), (CATEGORY_GENERAL, [])]"
    by (simp add: initial_state_def)
  from ingest_loop_fields[OF this] show ?thesis
    by (simp add: initial_state_def)
qed

lemma embedded_empty_iff:
  "(embedded g i rs = []) =
     (\<forall>(j, r) \<in> set (enumerate i rs). g j (format_error_text r) = None)"
  by (auto simp: embedded_def filter_empty_conv)

lemma vstack_uniform:
  assumes "uniform_dimension g d rs"
  shows "vstack (map (\<lambda>(j, r). the (g j (format_error_text r))) (embedded g 0 rs)) =
     Inr (map (\<lambda>(j, r). the (g j (format_error_text r))) (embedded g 0 rs))"
proof -
  let ?rows = "map (\<lambda>(j, r). the (g j (format_error_text r))) (embedded g 0 rs)"
  have "\<forall>row \<in> set ?rows. length row = d"
    using assms by (auto simp: uniform_dimension_def embedded_def list_all_iff)
  then have "list_all (\<lambda>row. length row = length (hd ?rows)) ?rows"
    unfolding list_all_iff by (cases ?rows) auto
  then show ?thesis by (simp add: vstack_def)
qed

lemma ingest_error_codes_nothing:
  assumes "embedded g 0 rs = []"
  shows "ingest_error_codes g rs fs =
     (Inl NoEmbeddings, [fs], LogStart # concat (map (events_for g (length rs)) (enumerate 0 rs)))"
  using assms by (simp add: ingest_error_codes_def ingest_loop_initial Let_def)

lemma ingest_result_Inr:
  assumes "ingest_result g rs fs = Inr st"
  shows "st = ingest_loop g (length rs) 0 rs initial_state \<and> embedded g 0 rs \<noteq> []
         \<and> ingest_trace g rs fs = run_steps (write_steps (embeddings st) st) fs"
proof -
  let ?st = "ingest_loop g (length rs) 0 rs initial_state"
  from assms have ne: "embeddings ?st \<noteq> []"
    by (auto simp: ingest_result_def ingest_error_codes_def Let_def)
  with assms obtain arr where v: "vstack (embeddings ?st) = Inr arr"
    by (cases "vstack (embeddings ?st)")
       (auto simp: ingest_result_def ingest_error_codes_def Let_def)
  then have arr: "arr = embeddings ?st" by (auto simp: vstack_def split: if_splits)
  from assms ne v have st: "st = ?st"
    by (simp add: ingest_result_def ingest_error_codes_def Let_def)
  have "embedded g 0 rs \<noteq> []" using ne by (auto simp: ingest_loop_initial)
  moreover have "ingest_trace g rs fs = run_steps (write_steps (embeddings st) st) fs"
    using ne v arr st by (simp add: ingest_trace_def ingest_error_codes_def Let_def)
  ultimately show ?thesis using st by simp
qed

lemma ingest_result_success:
  assumes "embedded g 0 rs \<noteq> []" and "uniform_dimension g d rs"
  shows "ingest_result g rs fs = Inr (ingest_loop g (length rs) 0 rs initial_state)"
    and "ingest_log g rs fs =
      logged (ingest_loop g (length rs) 0 rs initial_state) @
        [LogGenerated (length (embedded g 0 rs)), LogSavedIndex, LogSavedMetadata,
         LogSavedCategoryIndex,
         LogBreakdown [(CATEGORY_ERROR_CODES, length (embedded g 0 rs)),
                       (CATEGORY_SCHEMATICS, 0), (CATEGORY_GENERAL, 0)],
         LogComplete (length (embedded g 0 rs))]"
proof -
  let ?st = "ingest_loop g (length rs) 0 rs initial_state"
  have ne: "embeddings ?st \<noteq> []" using assms(1) by (simp add: ingest_loop_initial)
  have v: "vstack (embeddings ?st) = Inr (embeddings ?st)"
    using vstack_uniform[OF assms(2)] by (simp add: ingest_loop_initial)
  show "ingest_result g rs fs = Inr ?st"
    using ne v by (simp add: ingest_result_def ingest_error_codes_def Let_def)
  have "ingest_log g rs fs = logged ?st @
        [LogGenerated (length (embeddings ?st)), LogSavedIndex, LogSavedMetadata,
         LogSavedCategoryIndex,
         LogBreakdown (map (\<lambda>(k, v). (k, length v)) (category_index ?st)),
         LogComplete (length (embeddings ?st))]"
    using ne v by (simp add: ingest_log_def ingest_error_codes_def Let_def)
  then show "ingest_log g rs fs =
      logged ?st @
        [LogGenerated (length (embedded g 0 rs)), LogSavedIndex, LogSavedMetadata,
         LogSavedCategoryIndex,
         LogBreakdown [(CATEGORY_ERROR_CODES, length (embedded g 0 rs)),
                       (CATEGORY_SCHEMATICS, 0), (CATEGORY_GENERAL, 0)],
         LogComplete (length (embedded g 0 rs))]"
    by (simp add: ingest_loop_initial)
qed

lemma run_write_steps:
  "run_steps (write_steps rows st) fs =
     [fs,
      fs\<lparr>index_file := Some rows\<rparr>,
      fs\<lparr>index_file := Some rows, metadata_file := Some (metadata st)\<rparr>,
      fs\<lparr>index_file := Some rows, metadata_file := Some (metadata st),
         category_index_file := Some (category_index st)\<rparr>]"
  by (simp add: write_steps_def)


text \<open>
  The id of a metadata entry is the position of its record in the input, and the
  ERROR_CODES partition lists the same positions. They are the row numbers of the vector
  index when no embedding call fails.
\<close>

lemma ingest_ids_are_input_positions:
  assumes "ingest_result g rs fs = Inr st"
  shows "map md_id (metadata st) = map fst (embedded g 0 rs)
     \<and> map_of (category_index st) CATEGORY_ERROR_CODES = Some (map fst (embedded g 0 rs))
     \<and> length (embeddings st) = length (embedded g 0 rs)"
proof -
  have st: "st = ingest_loop g (length rs) 0 rs initial_state"
    using ingest_result_Inr[OF assms] by simp
  have "md_id \<circ> entry_for = (fst :: nat \<times> error_code \<Rightarrow> nat)"
    by (rule ext) (simp add: entry_for_def split: prod.split)
  then show ?thesis by (simp add: st ingest_loop_initial)
qed

lemma embedded_all:
  assumes "\<forall>(j, r) \<in> set (enumerate i rs). g j (format_error_text r) \<noteq> None"
  shows "embedded g i rs = enumerate i rs"
  using assms by (auto simp: embedded_def filter_id_conv)

lemma ingest_ids_dense_without_failures:
  assumes "ingest_result g rs fs = Inr st"
    and "\<forall>(j, r) \<in> set (enumerate 0 rs). g j (format_error_text r) \<noteq> None"
  shows "map md_id (metadata st) = [0..<length (embeddings st)]"
proof -
  note e = embedded_all[OF assms(2)]
  from ingest_ids_are_input_positions[OF assms(1)] show ?thesis
    by (simp add: e)
qed

section \<open>The ingestion pipeline: failures of the embedder\<close>

text \<open>
  Claim C6. A failure of the embedding call for one record is absorbed in the loop: when
  at least one call returns and the returned vectors have one length, the run succeeds,
  the metadata and the vectors are exactly those of the records whose call returned, in
  input order, both are written to the store, every failed record is logged, and the
  count of the indexed records is logged.
\<close>

theorem ingest_skips_failed_records:
  assumes "embedded g 0 rs \<noteq> []" and "uniform_dimension g d rs"
  shows "\<exists>st. ingest_result g rs fs = Inr st
     \<and> metadata st = map entry_for (embedded g 0 rs)
     \<and> embeddings st = map (\<lambda>(j, r). the (g j (format_error_text r))) (embedded g 0 rs)
     \<and> length (metadata st) = length (embedded g 0 rs)
     \<and> index_file (ingest_files g rs fs) = Some (embeddings st)
     \<and> metadata_file (ingest_files g rs fs) = Some (metadata st)
     \<and> (\<forall>(j, r) \<in> set (enumerate 0 rs).
           g j (format_error_text r) = None \<longrightarrow> LogFailed (code r) \<in> set (ingest_log g rs fs))
     \<and> LogComplete (length (embedded g 0 rs)) \<in> set (ingest_log g rs fs)"
proof -
  let ?st = "ingest_loop g (length rs) 0 rs initial_state"
  note r = ingest_result_success[OF assms]
  have tr: "ingest_trace g rs fs = run_steps (write_steps (embeddings ?st) ?st) fs"
    using ingest_result_Inr[OF r(1)] by simp
  have files: "index_file (ingest_files g rs fs) = Some (embeddings ?st)"
    "metadata_file (ingest_files g rs fs) = Some (metadata ?st)"
    by (simp_all add: ingest_files_def tr run_write_steps)
  have failed: "LogFailed (code r) \<in> set (ingest_log g rs fs)"
    if "(j, r) \<in> set (enumerate 0 rs)" and "g j (format_error_text r) = None" for j r
  proof -
    have "LogFailed (code r) \<in> set (events_for g (length rs) (j, r))"
      using that(2) by (simp add: events_for_pair)
    then have "LogFailed (code r) \<in> set (concat (map (events_for g (length rs)) (enumerate 0 rs)))"
      using that(1) by (simp only: set_concat set_map) blast
    then show ?thesis by (simp add: r(2) ingest_loop_initial)
  qed
  have "LogComplete (length (embedded g 0 rs)) \<in> set (ingest_log g rs fs)"
    by (simp add: r(2))
  with r(1) files failed show ?thesis
    by (intro exI[of _ ?st]) (auto simp: ingest_loop_initial)
qed

theorem ingest_skips_failed_records_witness:
  "embedded (failing_at 2) 0 lg_errors \<noteq> [] \<and> uniform_dimension (failing_at 2) 2 lg_errors
   \<and> length lg_errors = 5
   \<and> (\<exists>st. ingest_result (failing_at 2) lg_errors no_store = Inr st
         \<and> length (metadata st) = 4
         \<and> map md_code (metadata st) = [''IE'', ''UE'', ''FE'', ''dE''])
   \<and> LogFailed ''DE'' \<in> set (ingest_log (failing_at 2) lg_errors no_store)
   \<and> LogComplete 4 \<in> set (ingest_log (failing_at 2) lg_errors no_store)"
proof -
  have a: "embedded (failing_at 2) 0 lg_errors \<noteq> []" by code_simp
  have b: "uniform_dimension (failing_at 2) 2 lg_errors" by code_simp
  have c: "length lg_errors = 5" by code_simp
  have e: "map md_code (map entry_for (embedded (failing_at 2) 0 lg_errors)) =
      [''IE'', ''UE'', ''FE'', ''dE'']"
    by code_simp
  have l: "length (embedded (failing_at 2) 0 lg_errors) = 4" by code_simp
  have f: "(2, lg_errors ! 2) \<in> set (enumerate 0 lg_errors)" by code_simp
  have f': "failing_at 2 2 (format_error_text (lg_errors ! 2)) = None" by code_simp
  have f'': "code (lg_errors ! 2) = ''DE''" by code_simp
  from ingest_skips_failed_records[OF a b, of no_store] obtain st where
    st: "ingest_result (failing_at 2) lg_errors no_store = Inr st"
      "metadata st = map entry_for (embedded (failing_at 2) 0 lg_errors)"
      "length (metadata st) = length (embedded (failing_at 2) 0 lg_errors)"
      "\<forall>(j, r) \<in> set (enumerate 0 lg_errors).
           failing_at 2 j (format_error_text r) = None
           \<longrightarrow> LogFailed (code r) \<in> set (ingest_log (failing_at 2) lg_errors no_store)"
      "LogComplete (length (embedded (failing_at 2) 0 lg_errors))
         \<in> set (ingest_log (failing_at 2) lg_errors no_store)"
    by blast
  have 1: "\<exists>st. ingest_result (failing_at 2) lg_errors no_store = Inr st
         \<and> length (metadata st) = 4
         \<and> map md_code (metadata st) = [''IE'', ''UE'', ''FE'', ''dE'']"
  proof (intro exI[of _ st] conjI)
    show "ingest_result (failing_at 2) lg_errors no_store = Inr st" by (rule st(1))
    show "length (metadata st) = 4" using st(3) l by (simp only:)
    show "map md_code (metadata st) = [''IE'', ''UE'', ''FE'', ''dE'']"
      using st(2) e by (simp only:)
  qed
  have 2: "LogFailed ''DE'' \<in> set (ingest_log (failing_at 2) lg_errors no_store)"
    using st(4) f f' f'' by (metis (mono_tags, lifting) case_prodD)
  have 3: "LogComplete 4 \<in> set (ingest_log (failing_at 2) lg_errors no_store)"
    using st(5) l by simp
  show ?thesis by (intro conjI a b c 1 2 3)
qed

text \<open>
  Claim C7. When no embedding call returns, and so also on an empty input list, the run
  raises the build-level error before any write: the store directory passes through no
  other state than the one it had, so a previous store stays as it was.
\<close>

theorem ingest_nothing_embedded:
  assumes "\<forall>(j, r) \<in> set (enumerate 0 rs). g j (format_error_text r) = None"
  shows "ingest_result g rs fs = Inl NoEmbeddings
     \<and> ingest_trace g rs fs = [fs] \<and> ingest_files g rs fs = fs"
proof -
  have "embedded g 0 rs = []" using assms by (simp only: embedded_empty_iff)
  from ingest_error_codes_nothing[OF this, of fs] show ?thesis
    by (simp add: ingest_result_def ingest_trace_def ingest_files_def)
qed

theorem ingest_nothing_embedded_witness:
  "enumerate 0 ([] :: error_code list) = []
   \<and> ingest_result always_failing [] old_store = Inl NoEmbeddings
   \<and> ingest_trace always_failing [] old_store = [old_store]
   \<and> ingest_files always_failing [] old_store = old_store
   \<and> list_all (\<lambda>(j, r). always_failing j (format_error_text r) = None)
         (enumerate 0 lg_errors)
   \<and> ingest_result always_failing lg_errors old_store = Inl NoEmbeddings
   \<and> ingest_files always_failing lg_errors old_store = old_store"
proof -
  have a: "\<forall>(j, r) \<in> set (enumerate 0 []). always_failing j (format_error_text r) = None"
    by simp
  have b: "\<forall>(j, r) \<in> set (enumerate 0 lg_errors). always_failing j (format_error_text r) = None"
    by (simp add: always_failing_def)
  have c: "list_all (\<lambda>(j, r). always_failing j (format_error_text r) = None)
         (enumerate 0 lg_errors)"
    using b by (simp only: list_all_iff)
  have d: "enumerate 0 ([] :: error_code list) = []" by simp
  show ?thesis
    using c d ingest_nothing_embedded[OF a, of old_store]
      ingest_nothing_embedded[OF b, of old_store]
    by (intro conjI) blast+
qed

section \<open>The ingestion pipeline: ids, partitions and categories\<close>

text \<open>
  Claim C1. The ids are meant to be dense, so that row \<open>i\<close> of the vector index belongs
  to the metadata entry with id \<open>i\<close>, also after a skipped record. On two input records
  of which the first fails to embed, the run writes a vector index of one row, row 0,
  and one metadata entry, whose id is 1: the loop takes the id from the position in the
  input, not from the number of vectors so far.
\<close>

theorem ingest_ids_after_failure:
  "map_option (map md_id)
     (metadata_file (ingest_files (failing_at 0) (take 2 lg_errors) no_store)) = Some [1]
   \<and> map_option length
     (index_file (ingest_files (failing_at 0) (take 2 lg_errors) no_store)) = Some 1"
  by code_simp

text \<open>
  Claim C2. The partitions are meant to cover the row numbers of the vector index, each
  once. On three input records of which the second fails to embed, the run writes a
  vector index of two rows, 0 and 1, and the partitions ERROR_CODES = [0, 2] and two empty
  ones: row 1 is in no partition and id 2 is no row.
\<close>

theorem ingest_partitions_after_failure:
  "category_index_file (ingest_files (failing_at 1) (take 3 lg_errors) no_store) =
     Some [(''ERROR_CODES'', [0, 2]), (''SCHEMATICS'', []), (''GENERAL'', [])]
   \<and> map_option length
     (index_file (ingest_files (failing_at 1) (take 3 lg_errors) no_store)) = Some 2"
  by code_simp

text \<open>
  Claim C8. In every store that a run builds, each metadata entry has the category
  ERROR_CODES and the type \<^verbatim>\<open>text\<close>, and the category index has the three keys
  ERROR_CODES, SCHEMATICS and GENERAL, the last two with an empty list; this is what the
  run writes to the metadata file and to the category index file.
\<close>

theorem ingest_categories:
  assumes "ingest_result g rs fs = Inr st"
  shows "(\<forall>m \<in> set (metadata st).
            md_category m = CATEGORY_ERROR_CODES \<and> md_type m = ''text'')
     \<and> map fst (category_index st) =
         [CATEGORY_ERROR_CODES, CATEGORY_SCHEMATICS, CATEGORY_GENERAL]
     \<and> map_of (category_index st) CATEGORY_SCHEMATICS = Some []
     \<and> map_of (category_index st) CATEGORY_GENERAL = Some []
     \<and> metadata_file (ingest_files g rs fs) = Some (metadata st)
     \<and> category_index_file (ingest_files g rs fs) = Some (category_index st)"
proof -
  note r = ingest_result_Inr[OF assms]
  have st: "st = ingest_loop g (length rs) 0 rs initial_state" using r by simp
  have m: "\<forall>m \<in> set (metadata st).
            md_category m = CATEGORY_ERROR_CODES \<and> md_type m = ''text''"
    by (auto simp: st ingest_loop_initial entry_for_def)
  have k: "map fst (category_index st) =
         [CATEGORY_ERROR_CODES, CATEGORY_SCHEMATICS, CATEGORY_GENERAL]"
    by (simp add: st ingest_loop_initial)
  have p: "map_of (category_index st) CATEGORY_SCHEMATICS = Some []"
    "map_of (category_index st) CATEGORY_GENERAL = Some []"
    by (simp_all add: st ingest_loop_initial CATEGORY_ERROR_CODES_def CATEGORY_SCHEMATICS_def
        CATEGORY_GENERAL_def)
  have f: "metadata_file (ingest_files g rs fs) = Some (metadata st)"
    "category_index_file (ingest_files g rs fs) = Some (category_index st)"
    using r by (simp_all add: ingest_files_def run_write_steps)
  from m k p f show ?thesis by (intro conjI)
qed

theorem ingest_categories_witness:
  "\<exists>st. ingest_result (failing_at 2) lg_errors old_store = Inr st
     \<and> map md_category (metadata st) =
         [''ERROR_CODES'', ''ERROR_CODES'', ''ERROR_CODES'', ''ERROR_CODES'']
     \<and> list_all (\<lambda>m. md_category m = CATEGORY_ERROR_CODES \<and> md_type m = ''text'')
         (metadata st)
     \<and> category_index st =
         [(''ERROR_CODES'', [0, 1, 3, 4]), (''SCHEMATICS'', []), (''GENERAL'', [])]
     \<and> map_of (category_index st) CATEGORY_SCHEMATICS = Some []
     \<and> map_of (category_index st) CATEGORY_GENERAL = Some []
     \<and> category_index_file (ingest_files (failing_at 2) lg_errors old_store) =
         Some (category_index st)"
proof -
  let ?st = "ingest_loop (failing_at 2) (length lg_errors) 0 lg_errors initial_state"
  have a: "embedded (failing_at 2) 0 lg_errors \<noteq> []" by code_simp
  have b: "uniform_dimension (failing_at 2) 2 lg_errors" by code_simp
  have r: "ingest_result (failing_at 2) lg_errors old_store = Inr ?st"
    by (rule ingest_result_success(1)[OF a b])
  have c: "map md_category (metadata ?st) =
         [''ERROR_CODES'', ''ERROR_CODES'', ''ERROR_CODES'', ''ERROR_CODES'']"
    by code_simp
  have d: "category_index ?st =
         [(''ERROR_CODES'', [0, 1, 3, 4]), (''SCHEMATICS'', []), (''GENERAL'', [])]"
    by code_simp
  note t = ingest_categories[OF r]
  have e: "list_all (\<lambda>m. md_category m = CATEGORY_ERROR_CODES \<and> md_type m = ''text'')
         (metadata ?st)"
    using t unfolding list_all_iff by blast
  show ?thesis
    using r c d e t by (intro exI[of _ ?st] conjI) blast+
qed

section \<open>The ingestion pipeline: writing the store\<close>

text \<open>
  Claim C3, as stated, fails. The three artifacts are not written as one unit: after the
  first write the store directory holds the new vector index with no metadata and no
  category index when there was no store before, and with the metadata of the previous
  store, which differ from the new ones, when there was one.
\<close>

theorem ingest_partial_store_observable:
  "index_file (ingest_trace (failing_at 9) (take 1 lg_errors) no_store ! 1) \<noteq> None
   \<and> metadata_file (ingest_trace (failing_at 9) (take 1 lg_errors) no_store ! 1) = None
   \<and> category_index_file (ingest_trace (failing_at 9) (take 1 lg_errors) no_store ! 1) = None
   \<and> index_file (ingest_trace (failing_at 9) lg_errors old_store ! 1) =
       index_file (ingest_files (failing_at 9) lg_errors old_store)
   \<and> metadata_file (ingest_trace (failing_at 9) lg_errors old_store ! 1) =
       metadata_file old_store
   \<and> metadata_file (ingest_files (failing_at 9) lg_errors old_store) \<noteq>
       metadata_file old_store"
  by code_simp

text \<open>
  Claim C3, amended. A run that succeeds writes the three artifacts one after the other,
  in place, in the order vector index, metadata, category index; the store directory
  passes through the two states in between, and after the third write it holds the three
  artifacts of this run.
\<close>

theorem ingest_writes_in_order:
  assumes "ingest_result g rs fs = Inr st"
  shows "ingest_trace g rs fs =
       [fs,
        fs\<lparr>index_file := Some (embeddings st)\<rparr>,
        fs\<lparr>index_file := Some (embeddings st), metadata_file := Some (metadata st)\<rparr>,
        fs\<lparr>index_file := Some (embeddings st), metadata_file := Some (metadata st),
           category_index_file := Some (category_index st)\<rparr>]
     \<and> ingest_files g rs fs =
        \<lparr>index_file = Some (embeddings st), metadata_file = Some (metadata st),
         category_index_file = Some (category_index st)\<rparr>"
  using ingest_result_Inr[OF assms]
  by (simp add: ingest_files_def run_write_steps)

theorem ingest_writes_in_order_witness:
  "\<exists>st. ingest_result (failing_at 2) lg_errors old_store = Inr st
     \<and> length (ingest_trace (failing_at 2) lg_errors old_store) = 4
     \<and> ingest_trace (failing_at 2) lg_errors old_store ! 0 = old_store
     \<and> ingest_trace (failing_at 2) lg_errors old_store ! 1 =
         old_store\<lparr>index_file := Some (embeddings st)\<rparr>
     \<and> ingest_trace (failing_at 2) lg_errors old_store ! 3 =
         \<lparr>index_file = Some (embeddings st), metadata_file = Some (metadata st),
          category_index_file = Some (category_index st)\<rparr>
     \<and> length (embeddings st) = 4"
proof -
  let ?st = "ingest_loop (failing_at 2) (length lg_errors) 0 lg_errors initial_state"
  have a: "embedded (failing_at 2) 0 lg_errors \<noteq> []" by code_simp
  have b: "uniform_dimension (failing_at 2) 2 lg_errors" by code_simp
  have r: "ingest_result (failing_at 2) lg_errors old_store = Inr ?st"
    by (rule ingest_result_success(1)[OF a b])
  have l: "length (embeddings ?st) = 4" by code_simp
  note t = ingest_writes_in_order[OF r]
  show ?thesis
    using r l by (intro exI[of _ ?st]) (simp add: t)
qed

section \<open>The retriever: category scoping\<close>

lemma match_id_make_match: "match_id (make_match store (i, s)) = i"
  by (simp add: make_match_def)

lemma candidate_ids_hint: "set (candidate_ids store (Some C)) \<subseteq> set (partition_of store C)"
  by (auto simp: candidate_ids_def)

lemma search_ids:
  assumes "search embedder (Some store) threshold query_text img hint top_k = Inr ms"
    and "m \<in> set ms"
  shows "match_id m \<in> set (candidate_ids store hint)"
proof -
  from assms(1) obtain q where q: "embedder query_text = Some q"
    by (cases "embedder query_text") (auto simp: search_def split: if_splits)
  define scored where
    "scored = map (\<lambda>i. (i, similarity (l2_distance q (vector_index store ! i))))
                (candidate_ids store hint)"
  define ranked where
    "ranked = sort_key (\<lambda>(i, s). (- s, i)) (filter (\<lambda>(i, s). \<not> s < threshold) scored)"
  from assms(1) q have ms: "ms = map (make_match store) (take top_k ranked)"
    by (auto simp: search_def Let_def ranked_def scored_def split: if_splits)
  with assms(2) obtain i s where m: "(i, s) \<in> set (take top_k ranked)"
    "m = make_match store (i, s)"
    by auto
  from m(1) have "(i, s) \<in> set ranked" by (rule in_set_takeD)
  then have "(i, s) \<in> set scored" by (simp add: ranked_def)
  then have "i \<in> set (candidate_ids store hint)" by (auto simp: scored_def)
  then show ?thesis by (simp add: m(2) match_id_make_match)
qed

lemma well_formed_partition:
  assumes "well_formed_store store" and "i \<in> set (partition_of store C)"
  shows "md_category (metadata_table store ! i) = C"
proof -
  from assms(2) obtain ids where ids: "map_of (partition_map store) C = Some ids" "i \<in> set ids"
    by (cases "map_of (partition_map store) C") (auto simp: partition_of_def)
  then have "(C, ids) \<in> set (partition_map store)" by (simp add: map_of_SomeD)
  with assms(1) ids(2) show ?thesis
    by (auto simp: well_formed_store_def list_all_iff)
qed

text \<open>
  Claim C9. When a search is given a hint that names the category \<open>C\<close>, the id of every
  Match it returns is in the partition of \<open>C\<close>; in a well-formed store the record of that
  id has the category \<open>C\<close> and the id is in the partition of no other category. In the
  store of scenario 1 the query is closest to record 2, a SCHEMATICS record, which an
  unrestricted search ranks first and the search restricted to ERROR_CODES never returns.
\<close>

theorem search_category_scoping:
  assumes "search embedder (Some store) threshold query_text img (Some C) top_k = Inr ms"
    and "m \<in> set ms"
  shows "match_id m \<in> set (partition_of store C)
     \<and> (well_formed_store store \<longrightarrow>
          md_category (metadata_table store ! match_id m) = C
          \<and> (\<forall>C'. C' \<noteq> C \<longrightarrow> match_id m \<notin> set (partition_of store C')))"
proof -
  have p: "match_id m \<in> set (partition_of store C)"
    using search_ids[OF assms] candidate_ids_hint by blast
  show ?thesis
    using p well_formed_partition by blast
qed

theorem search_category_scoping_witness:
  "search scenario_embedder (Some scenario_store) (1 / 4) ''IE error showing''
      (None :: unit option)
      (detect_intent sample_tables (py_str ''IE error showing'') False) 3 =
     Inr [make_match scenario_store (0, 1 / 2), make_match scenario_store (1, 1 / 2)]
   \<and> well_formed_store scenario_store
   \<and> partition_of scenario_store ''ERROR_CODES'' = [0, 1]
   \<and> match_id (make_match scenario_store (0, 1 / 2))
         \<in> set (partition_of scenario_store ''ERROR_CODES'')
   \<and> md_category (metadata_table scenario_store ! match_id (make_match scenario_store (0, 1 / 2)))
       = ''ERROR_CODES''
   \<and> match_id (make_match scenario_store (0, 1 / 2))
         \<notin> set (partition_of scenario_store ''SCHEMATICS'')
   \<and> map match_id (projr (search scenario_embedder (Some scenario_store) (1 / 4)
        ''IE error showing'' (None :: unit option) None 3)) = [2, 0, 1]"
proof -
  let ?m = "make_match scenario_store (0, 1 / 2)"
  let ?ms = "[?m, make_match scenario_store (1, 1 / 2)]"
  have d: "detect_intent sample_tables (py_str ''IE error showing'') False
      = Some ''ERROR_CODES''"
    by code_simp
  have s: "search scenario_embedder (Some scenario_store) (1 / 4) ''IE error showing''
      (None :: unit option) (Some ''ERROR_CODES'') 3 = Inr ?ms"
    by code_simp
  have w: "well_formed_store scenario_store" by code_simp
  have p: "partition_of scenario_store ''ERROR_CODES'' = [0, 1]" by code_simp
  have u: "map match_id (projr (search scenario_embedder (Some scenario_store) (1 / 4)
        ''IE error showing'' (None :: unit option) None 3)) = [2, 0, 1]"
    by code_simp
  have n: "''SCHEMATICS'' \<noteq> ''ERROR_CODES''" by simp
  have i: "?m \<in> set ?ms" by (simp only: list.set insertI1)
  note t = search_category_scoping[OF s i]
  have t1: "match_id ?m \<in> set (partition_of scenario_store ''ERROR_CODES'')"
    using t by (rule conjunct1)
  from t have "well_formed_store scenario_store \<longrightarrow>
      md_category (metadata_table scenario_store ! match_id ?m) = ''ERROR_CODES''
      \<and> (\<forall>C'. C' \<noteq> ''ERROR_CODES'' \<longrightarrow> match_id ?m \<notin> set (partition_of scenario_store C'))"
    by (rule conjunct2)
  from this w have both:
    "md_category (metadata_table scenario_store ! match_id ?m) = ''ERROR_CODES''
      \<and> (\<forall>C'. C' \<noteq> ''ERROR_CODES'' \<longrightarrow> match_id ?m \<notin> set (partition_of scenario_store C'))"
    by (rule mp)
  from both have t2: "md_category (metadata_table scenario_store ! match_id ?m) = ''ERROR_CODES''"
    by (rule conjunct1)
  from both have "\<forall>C'. C' \<noteq> ''ERROR_CODES'' \<longrightarrow> match_id ?m \<notin> set (partition_of scenario_store C')"
    by (rule conjunct2)
  then have "''SCHEMATICS'' \<noteq> ''ERROR_CODES'' \<longrightarrow>
      match_id ?m \<notin> set (partition_of scenario_store ''SCHEMATICS'')"
    by (rule spec)
  from this n have t3: "match_id ?m \<notin> set (partition_of scenario_store ''SCHEMATICS'')"
    by (rule mp)
  have s': "search scenario_embedder (Some scenario_store) (1 / 4) ''IE error showing''
      (None :: unit option)
      (detect_intent sample_tables (py_str ''IE error showing'') False) 3 = Inr ?ms"
    using s by (simp only: d)
  show ?thesis
    by (intro conjI s' w p t1 t2 t3 u)
qed

end
